theory Spec2Isabelle
  imports Complex_Main
begin

section \<open>The load-balance baseline: placement and schedule builders\<close>

text \<open>
  A shallow embedding of \<^verbatim>\<open>src/non_RL_algos/loadBalance.py\<close>.

  Conventions of the model:
  \<^item> Python dictionaries are maps \<open>'k \<rightharpoonup> 'v\<close>; a \<^verbatim>\<open>defaultdict\<close> is a map whose
    writing accesses create the missing levels (see \<open>schedule_setitem\<close>).
  \<^item> Exceptions are values of the type \<open>error\<close>; a function that may raise returns
    \<open>error + 'a\<close>, with \<open>Inl\<close> the raised exception.
  \<^item> Probabilities are real numbers. The scheduling code itself performs no
    arithmetic on them: every value stored in a schedule is an element of the list the
    external normalizer returned.
  \<^item> The external collaborators (normalizer, simulator, file system, random number
    generator) are parameters of the model. A run is a function from the state of the
    world outside the program to the trace of its external calls and its outcome.
  \<^item> Values are passed by value: a collaborator that changes a dictionary it was
    handed is outside the model. Calls of the logging framework are events without
    an outcome.
\<close>

datatype error =
    IndexError
  | KeyError
  | FileNotFoundError
  | FileExistsError
  | NotADirectoryError
  | IsADirectoryError
  | SameFileError
  | ExternalError

subsection \<open>get_placement (lines 49-64)\<close>

type_synonym ('n, 'f) placement = "'n \<rightharpoonup> 'f list"

fun get_placement_loop ::
  "('n, 'f) placement \<Rightarrow> 'n list \<Rightarrow> 'f list \<Rightarrow> ('n, 'f) placement" where
  "get_placement_loop placement [] sf_list = placement"
| "get_placement_loop placement (node # rest) sf_list =
     get_placement_loop (placement(node \<mapsto> sf_list)) rest sf_list"

definition get_placement :: "'n list \<Rightarrow> 'f list \<Rightarrow> ('n, 'f) placement" where
  "get_placement nodes_list sf_list = get_placement_loop Map.empty nodes_list sf_list"

subsection \<open>get_schedule (lines 67-103)\<close>

type_synonym 'n distribution = "'n \<rightharpoonup> real"

type_synonym ('n, 'c, 'f) schedule = "'n \<rightharpoonup> ('c \<rightharpoonup> ('f \<rightharpoonup> 'n distribution))"

text \<open>The external \<^verbatim>\<open>normalize_scheduling_probabilities\<close>: it may raise.\<close>

type_synonym normalizer = "real list \<Rightarrow> error + real list"

text \<open>
  Reading a key of a \<^verbatim>\<open>defaultdict\<close> whose factory builds an empty
  \<^verbatim>\<open>defaultdict\<close>: the stored value, or the fresh empty mapping.
\<close>

definition getitem_default :: "('k \<rightharpoonup> ('a \<rightharpoonup> 'b)) \<Rightarrow> 'k \<Rightarrow> ('a \<rightharpoonup> 'b)" where
  "getitem_default d k = (case d k of None \<Rightarrow> Map.empty | Some v \<Rightarrow> v)"

text \<open>
  The assignment \<^verbatim>\<open>schedule[outer_node][sfc][sf][inner_node] = v\<close>: the three
  reading accesses create the missing levels, the last one stores the value.
\<close>

definition schedule_setitem ::
  "('n, 'c, 'f) schedule \<Rightarrow> 'n \<Rightarrow> 'c \<Rightarrow> 'f \<Rightarrow> 'n \<Rightarrow> real \<Rightarrow> ('n, 'c, 'f) schedule" where
  "schedule_setitem schedule outer_node sfc sf inner_node v =
     (let by_sfc = getitem_default schedule outer_node;
          by_sf = getitem_default by_sfc sfc;
          dist = getitem_default by_sf sf
      in schedule(outer_node \<mapsto> by_sfc(sfc \<mapsto> by_sf(sf \<mapsto> dist(inner_node \<mapsto> v)))))"

text \<open>\<^verbatim>\<open>list.pop()\<close>: removes and returns the last element; IndexError on an empty list.\<close>

definition pop :: "'a list \<Rightarrow> error + ('a \<times> 'a list)" where
  "pop xs = (if xs = [] then Inl IndexError else Inr (last xs, butlast xs))"

text \<open>
  The innermost loop (lines 101-102). The right-hand side \<^verbatim>\<open>uniform_prob_list.pop()\<close>
  is evaluated before the store. The function returns the schedule together with what
  is left of \<^verbatim>\<open>uniform_prob_list\<close>.
\<close>

fun inner_node_loop ::
  "('n, 'c, 'f) schedule \<Rightarrow> 'n \<Rightarrow> 'c \<Rightarrow> 'f \<Rightarrow> 'n list \<Rightarrow> real list \<Rightarrow>
   error + (('n, 'c, 'f) schedule \<times> real list)" where
  "inner_node_loop schedule outer_node sfc sf [] uniform_prob_list =
     Inr (schedule, uniform_prob_list)"
| "inner_node_loop schedule outer_node sfc sf (inner_node # rest) uniform_prob_list =
     (case pop uniform_prob_list of
        Inl e \<Rightarrow> Inl e
      | Inr (v, uniform_prob_list') \<Rightarrow>
          inner_node_loop (schedule_setitem schedule outer_node sfc sf inner_node v)
            outer_node sfc sf rest uniform_prob_list')"

text \<open>The loop over \<^verbatim>\<open>sf_list\<close> (lines 96-102).\<close>

fun sf_loop ::
  "normalizer \<Rightarrow> 'n list \<Rightarrow> ('n, 'c, 'f) schedule \<Rightarrow> 'n \<Rightarrow> 'c \<Rightarrow> 'f list \<Rightarrow>
   error + ('n, 'c, 'f) schedule" where
  "sf_loop normalize_scheduling_probabilities nodes_list schedule outer_node sfc [] =
     Inr schedule"
| "sf_loop normalize_scheduling_probabilities nodes_list schedule outer_node sfc (sf # rest) =
     (case normalize_scheduling_probabilities (replicate (length nodes_list) 0) of
        Inl e \<Rightarrow> Inl e
      | Inr uniform_prob_list \<Rightarrow>
          (case inner_node_loop schedule outer_node sfc sf nodes_list uniform_prob_list of
             Inl e \<Rightarrow> Inl e
           | Inr (schedule', _) \<Rightarrow>
               sf_loop normalize_scheduling_probabilities nodes_list schedule' outer_node sfc
                 rest))"

text \<open>The loop over \<^verbatim>\<open>sfc_list\<close> (lines 95-102).\<close>

fun sfc_loop ::
  "normalizer \<Rightarrow> 'n list \<Rightarrow> 'f list \<Rightarrow> ('n, 'c, 'f) schedule \<Rightarrow> 'n \<Rightarrow> 'c list \<Rightarrow>
   error + ('n, 'c, 'f) schedule" where
  "sfc_loop normalize_scheduling_probabilities nodes_list sf_list schedule outer_node [] =
     Inr schedule"
| "sfc_loop normalize_scheduling_probabilities nodes_list sf_list schedule outer_node
     (sfc # rest) =
     (case sf_loop normalize_scheduling_probabilities nodes_list schedule outer_node sfc
             sf_list of
        Inl e \<Rightarrow> Inl e
      | Inr schedule' \<Rightarrow>
          sfc_loop normalize_scheduling_probabilities nodes_list sf_list schedule' outer_node
            rest)"

text \<open>The loop over the origin nodes (lines 94-102).\<close>

fun outer_node_loop ::
  "normalizer \<Rightarrow> 'n list \<Rightarrow> 'f list \<Rightarrow> 'c list \<Rightarrow> ('n, 'c, 'f) schedule \<Rightarrow> 'n list \<Rightarrow>
   error + ('n, 'c, 'f) schedule" where
  "outer_node_loop normalize_scheduling_probabilities nodes_list sf_list sfc_list schedule [] =
     Inr schedule"
| "outer_node_loop normalize_scheduling_probabilities nodes_list sf_list sfc_list schedule
     (outer_node # rest) =
     (case sfc_loop normalize_scheduling_probabilities nodes_list sf_list schedule outer_node
             sfc_list of
        Inl e \<Rightarrow> Inl e
      | Inr schedule' \<Rightarrow>
          outer_node_loop normalize_scheduling_probabilities nodes_list sf_list sfc_list
            schedule' rest)"

text \<open>
  \<^verbatim>\<open>get_schedule\<close>: the loops start from the empty \<^verbatim>\<open>defaultdict\<close>; the first
  argument is the external normalizer the code imports.
\<close>

definition get_schedule ::
  "normalizer \<Rightarrow> 'n list \<Rightarrow> 'f list \<Rightarrow> 'c list \<Rightarrow> error + ('n, 'c, 'f) schedule" where
  "get_schedule normalize_scheduling_probabilities nodes_list sf_list sfc_list =
     outer_node_loop normalize_scheduling_probabilities nodes_list sf_list sfc_list Map.empty
       nodes_list"

text \<open>
  Reading \<^verbatim>\<open>schedule[outer_node][sfc][sf]\<close> from a finished schedule without creating
  anything: \<open>None\<close> when one of the three keys is missing.
\<close>

definition schedule_lookup ::
  "('n, 'c, 'f) schedule \<Rightarrow> 'n \<Rightarrow> 'c \<Rightarrow> 'f \<Rightarrow> 'n distribution option" where
  "schedule_lookup schedule outer_node sfc sf =
     (case schedule outer_node of
        None \<Rightarrow> None
      | Some by_sfc \<Rightarrow> (case by_sfc sfc of None \<Rightarrow> None | Some by_sf \<Rightarrow> by_sf sf))"

text \<open>Normalizers used to exercise the builders on concrete inputs.\<close>

definition uniform_normalizer :: normalizer where
  "uniform_normalizer ws =
     (if ws = [] then Inl ExternalError
      else Inr (replicate (length ws) (1 / real (length ws))))"

definition raising_normalizer :: normalizer where
  "raising_normalizer ws = Inl ExternalError"

definition identity_normalizer :: normalizer where
  "identity_normalizer ws = Inr ws"


subsection \<open>Paths and number formatting\<close>

text \<open>
  \<^verbatim>\<open>os.path.basename\<close> (POSIX): everything after the last slash.
\<close>

definition basename :: "string \<Rightarrow> string" where
  "basename p = rev (takeWhile (\<lambda>c. c \<noteq> CHR ''/'') (rev p))"

text \<open>
  \<^verbatim>\<open>os.path.dirname\<close> (POSIX): everything up to the last slash, with trailing slashes
  stripped unless the head consists of slashes only.
\<close>

definition dirname :: "string \<Rightarrow> string" where
  "dirname p =
     (let head = rev (dropWhile (\<lambda>c. c \<noteq> CHR ''/'') (rev p))
      in if list_all (\<lambda>c. c = CHR ''/'') head then head
         else rev (dropWhile (\<lambda>c. c = CHR ''/'') (rev head)))"

text \<open>
  \<^verbatim>\<open>os.path.splitext(p)[0]\<close> (POSIX): the path without the extension of its last
  component; leading dots of that component do not start an extension.
\<close>

definition splitext_root :: "string \<Rightarrow> string" where
  "splitext_root p =
     (let name = basename p;
          dir = take (length p - length name) p
      in if CHR ''.'' \<notin> set name then p
         else
           (let root = rev (tl (dropWhile (\<lambda>c. c \<noteq> CHR ''.'') (rev name)))
            in if list_all (\<lambda>c. c = CHR ''.'') root then p else dir @ root))"

text \<open>Decimal formatting of an integer, as \<^verbatim>\<open>str.format\<close> and f-strings print it.\<close>

definition digit_char :: "nat \<Rightarrow> char" where
  "digit_char d = ''0123456789'' ! d"

fun str_nat :: "nat \<Rightarrow> string" where
  "str_nat n = (if n < 10 then [digit_char n] else str_nat (n div 10) @ [digit_char (n mod 10)])"

definition str_int :: "int \<Rightarrow> string" where
  "str_int i = (if i < 0 then CHR ''-'' # str_nat (nat (- i)) else str_nat (nat i))"

subsection \<open>The external world: events, programs, collaborators\<close>

datatype ('n, 'c, 'f) action = SimulatorAction "('n, 'f) placement" "('n, 'c, 'f) schedule"

text \<open>
  What \<^verbatim>\<open>main\<close> reads of a simulator state: the ids of the node descriptors of
  \<^verbatim>\<open>state.network['nodes']\<close>, the keys of \<^verbatim>\<open>state.service_functions\<close> and of
  \<^verbatim>\<open>state.sfcs\<close> (in iteration order), and the opaque statistics.
\<close>

record ('n, 'c, 'f, 's) simulator_state =
  state_network_nodes :: "'n list"
  state_service_functions :: "'f list"
  state_sfcs :: "'c list"
  network_stats :: 's

text \<open>
  Every call that leaves the program is an event; the trace of a run is the list of
  its events in the order of the calls. An event is recorded when the call is made.
\<close>

datatype ('n, 'c, 'f, 's) event =
    Randint int int
  | MakeDirs string
  | BasicConfig string
  | SetLevel string
  | NewSimulator string string string string
  | SimInit int
  | LogInfoInit 's
  | SimApply "('n, 'c, 'f) action"
  | LogInfoApply int 's
  | CopyFile string string
  | CreateInputFile string nat string

fun is_Randint :: "('n, 'c, 'f, 's) event \<Rightarrow> bool" where
  "is_Randint (Randint lo hi) = True"
| "is_Randint _ = False"

fun is_SimInit :: "('n, 'c, 'f, 's) event \<Rightarrow> bool" where
  "is_SimInit (SimInit s) = True"
| "is_SimInit _ = False"

fun is_SimApply :: "('n, 'c, 'f, 's) event \<Rightarrow> bool" where
  "is_SimApply (SimApply a) = True"
| "is_SimApply _ = False"

fun is_CopyFile :: "('n, 'c, 'f, 's) event \<Rightarrow> bool" where
  "is_CopyFile (CopyFile src dst) = True"
| "is_CopyFile _ = False"

text \<open>
  A program step maps the state of the world to the events it caused and either the
  exception it raised or its result and the new state of the world.
\<close>

type_synonym ('e, 'w, 'a) prog = "'w \<Rightarrow> 'e list \<times> (error + 'a \<times> 'w)"

definition return :: "'a \<Rightarrow> ('e, 'w, 'a) prog" where
  "return x w = ([], Inr (x, w))"

definition lift :: "error + 'a \<Rightarrow> ('e, 'w, 'a) prog" where
  "lift r w = ([], case r of Inl e \<Rightarrow> Inl e | Inr x \<Rightarrow> Inr (x, w))"

definition emit :: "'e \<Rightarrow> ('e, 'w, unit) prog" where
  "emit ev w = ([ev], Inr ((), w))"

definition call :: "'e \<Rightarrow> ('w \<Rightarrow> error + 'a \<times> 'w) \<Rightarrow> ('e, 'w, 'a) prog" where
  "call ev operation w = ([ev], operation w)"

definition exec :: "'e \<Rightarrow> ('w \<Rightarrow> error + 'w) \<Rightarrow> ('e, 'w, unit) prog" where
  "exec ev operation w =
     ([ev], case operation w of Inl e \<Rightarrow> Inl e | Inr w' \<Rightarrow> Inr ((), w'))"

text \<open>Sequencing: an exception of the first step ends the run, its events are kept.\<close>

definition and_then ::
  "('e, 'w, 'a) prog \<Rightarrow> ('a \<Rightarrow> ('e, 'w, 'b) prog) \<Rightarrow> ('e, 'w, 'b) prog" where
  "and_then m k w =
     (case m w of
        (es, Inl e) \<Rightarrow> (es, Inl e)
      | (es, Inr (x, w')) \<Rightarrow> (case k x w' of (es', r) \<Rightarrow> (es @ es', r)))"

text \<open>
  The collaborators of the program. \<open>'w\<close> is the state of everything outside it: file
  system, random number generator, simulator. \<^verbatim>\<open>os.makedirs\<close> is only ever called with
  \<^verbatim>\<open>exist_ok=True\<close>.
\<close>

record ('w, 'n, 'c, 'f, 's) env =
  randint :: "int \<Rightarrow> int \<Rightarrow> 'w \<Rightarrow> int \<times> 'w"
  makedirs :: "string \<Rightarrow> 'w \<Rightarrow> error + 'w"
  copyfile :: "string \<Rightarrow> string \<Rightarrow> 'w \<Rightarrow> error + 'w"
  basicConfig :: "string \<Rightarrow> 'w \<Rightarrow> error + 'w"
  abspath :: "string \<Rightarrow> string"
  project_root :: string
  DATETIME :: string
  new_simulator :: "string \<Rightarrow> string \<Rightarrow> string \<Rightarrow> string \<Rightarrow> 'w \<Rightarrow> error + 'w"
  simulator_init :: "int \<Rightarrow> 'w \<Rightarrow> error + ('n, 'c, 'f, 's) simulator_state \<times> 'w"
  simulator_apply ::
    "('n, 'c, 'f) action \<Rightarrow> 'w \<Rightarrow> error + ('n, 'c, 'f, 's) simulator_state \<times> 'w"
  simulator_network :: "'w \<Rightarrow> ('n \<times> (string \<rightharpoonup> string)) list"
  env_normalizer :: normalizer
  create_input_file :: "string \<Rightarrow> nat \<Rightarrow> string \<Rightarrow> 'w \<Rightarrow> error + 'w"

subsection \<open>copy_input_files (lines 17-26)\<close>

definition copy_input_files ::
  "('w, 'n, 'c, 'f, 's) env \<Rightarrow> string \<Rightarrow> string \<Rightarrow> string \<Rightarrow> string \<Rightarrow>
   (('n, 'c, 'f, 's) event, 'w, unit) prog" where
  "copy_input_files env target_dir network_path service_path sim_config_path =
     (let new_network_path = target_dir @ ''/'' @ basename network_path;
          new_service_path = target_dir @ ''/'' @ basename service_path;
          new_sim_config_path = target_dir @ ''/'' @ basename sim_config_path
      in and_then (exec (MakeDirs target_dir) (makedirs env target_dir)) (\<lambda>_.
         and_then (exec (CopyFile network_path new_network_path)
                     (copyfile env network_path new_network_path)) (\<lambda>_.
         and_then (exec (CopyFile service_path new_service_path)
                     (copyfile env service_path new_service_path)) (\<lambda>_.
         exec (CopyFile sim_config_path new_sim_config_path)
           (copyfile env sim_config_path new_sim_config_path)))))"

subsection \<open>get_ingress_nodes (lines 29-41)\<close>

text \<open>
  The argument is \<^verbatim>\<open>network.nodes(data=True)\<close>: pairs of a node and its attribute
  dictionary. Reading a missing \<^verbatim>\<open>"type"\<close> attribute raises KeyError.
\<close>

fun get_ingress_nodes_loop ::
  "'n list \<Rightarrow> ('n \<times> (string \<rightharpoonup> string)) list \<Rightarrow> error + 'n list" where
  "get_ingress_nodes_loop ing_nodes [] = Inr ing_nodes"
| "get_ingress_nodes_loop ing_nodes (node # rest) =
     (case snd node ''type'' of
        None \<Rightarrow> Inl KeyError
      | Some t \<Rightarrow>
          get_ingress_nodes_loop
            (if t = ''Ingress'' then ing_nodes @ [fst node] else ing_nodes) rest)"

definition get_ingress_nodes :: "('n \<times> (string \<rightharpoonup> string)) list \<Rightarrow> error + 'n list" where
  "get_ingress_nodes network = get_ingress_nodes_loop [] network"

subsection \<open>main (lines 116-155)\<close>

record args =
  iterations :: int
  seed :: "int option"
  network :: string
  service_functions :: string
  config :: string

text \<open>
  Lines 119-120. \<^verbatim>\<open>not args.seed\<close> holds when the option was not given
  (\<^verbatim>\<open>None\<close>) and also when it was given as \<^verbatim>\<open>0\<close>.
\<close>

definition resolve_seed ::
  "('w, 'n, 'c, 'f, 's) env \<Rightarrow> int option \<Rightarrow> (('n, 'c, 'f, 's) event, 'w, int) prog" where
  "resolve_seed env args_seed =
     (if args_seed = None \<or> args_seed = Some 0
      then call (Randint 1 9999) (\<lambda>w. Inr (randint env 1 9999 w))
      else return (the args_seed))"

text \<open>The name of the log file (lines 122-123).\<close>

definition log_filename :: "('w, 'n, 'c, 'f, 's) env \<Rightarrow> args \<Rightarrow> int \<Rightarrow> string" where
  "log_filename env args args_seed =
     ''logs/'' @ basename (network args) @ ''_'' @ DATETIME env @ ''_'' @ str_int args_seed
       @ ''.log''"

text \<open>The results directory (lines 127-132).\<close>

definition results_dir :: "('w, 'n, 'c, 'f, 's) env \<Rightarrow> args \<Rightarrow> int \<Rightarrow> string" where
  "results_dir env args args_seed =
     (let network_stem = splitext_root (basename (network args));
          service_function_stem = splitext_root (basename (service_functions args));
          simulator_config_stem = splitext_root (basename (config args))
      in project_root env @ ''/results/'' @ network_stem @ ''/'' @ service_function_stem
           @ ''/'' @ simulator_config_stem @ ''/'' @ DATETIME env @ ''_seed''
           @ str_int args_seed)"

text \<open>The loop of lines 150-152, over the values of \<^verbatim>\<open>range(args.iterations)\<close>.\<close>

fun apply_loop ::
  "('w, 'n, 'c, 'f, 's) env \<Rightarrow> ('n, 'c, 'f) action \<Rightarrow> nat list \<Rightarrow>
   (('n, 'c, 'f, 's) event, 'w, unit) prog" where
  "apply_loop env action [] = return ()"
| "apply_loop env action (i # rest) =
     and_then (call (SimApply action) (simulator_apply env action)) (\<lambda>apply_state.
     and_then (emit (LogInfoApply (int i + 1) (network_stats apply_state))) (\<lambda>_.
     apply_loop env action rest))"

definition main ::
  "('w, 'n, 'c, 'f, 's) env \<Rightarrow> args \<Rightarrow> (('n, 'c, 'f, 's) event, 'w, unit) prog" where
  "main env args =
     and_then (resolve_seed env (seed args)) (\<lambda>args_seed.
     and_then (exec (MakeDirs ''logs'') (makedirs env ''logs'')) (\<lambda>_.
     and_then (exec (BasicConfig (log_filename env args args_seed))
                 (basicConfig env (log_filename env args args_seed))) (\<lambda>_.
     and_then (emit (SetLevel ''coordsim'')) (\<lambda>_.
     and_then (exec (NewSimulator (abspath env (network args))
                       (abspath env (service_functions args)) (abspath env (config args))
                       (results_dir env args args_seed))
                 (new_simulator env (abspath env (network args))
                    (abspath env (service_functions args)) (abspath env (config args))
                    (results_dir env args args_seed))) (\<lambda>_.
     and_then (call (SimInit args_seed) (simulator_init env args_seed)) (\<lambda>init_state.
     and_then (emit (LogInfoInit (network_stats init_state))) (\<lambda>_.
     and_then (\<lambda>w. lift (get_ingress_nodes (simulator_network env w)) w) (\<lambda>ingress_nodes.
     and_then (lift (get_schedule (env_normalizer env) (state_network_nodes init_state)
                       (state_service_functions init_state) (state_sfcs init_state)))
       (\<lambda>schedule.
     and_then (apply_loop env
                 (SimulatorAction
                    (get_placement (state_network_nodes init_state)
                       (state_service_functions init_state))
                    schedule)
                 [0 ..< nat (iterations args)]) (\<lambda>_.
     and_then (copy_input_files env (results_dir env args args_seed)
                 (abspath env (network args)) (abspath env (service_functions args))
                 (abspath env (config args))) (\<lambda>_.
     exec (CreateInputFile (results_dir env args args_seed) (length ingress_nodes)
             ''LoadBalance'')
       (create_input_file env (results_dir env args args_seed) (length ingress_nodes)
          ''LoadBalance''))))))))))))"


subsection \<open>A file system behind makedirs and copyfile\<close>

text \<open>
  A model of the part of the POSIX file system that \<^verbatim>\<open>copy_input_files\<close> touches:
  the directories and the regular files with their contents, both keyed by the path
  string. Paths are compared as strings (no normalisation, no links, no permissions).
\<close>

record 'd filesystem =
  dirs :: "string set"
  files :: "string \<rightharpoonup> 'd"

text \<open>
  The proper ancestors of a path: its prefixes that end before a slash (the empty
  prefix and prefixes ending in a slash are not paths of their own).
\<close>

fun path_prefixes :: "string \<Rightarrow> string \<Rightarrow> string list" where
  "path_prefixes pre [] = []"
| "path_prefixes pre (c # cs) =
     (if c = CHR ''/'' \<and> pre \<noteq> [] \<and> last pre \<noteq> CHR ''/'' then [pre] else [])
       @ path_prefixes (pre @ [c]) cs"

definition parent_dirs :: "string \<Rightarrow> string list" where
  "parent_dirs p = path_prefixes [] p"

text \<open>
  \<^verbatim>\<open>os.makedirs(name, exist_ok=True)\<close>: creates the directory and every missing
  ancestor; an existing directory is not an error, an existing regular file in the way
  is.
\<close>

definition fs_makedirs :: "string \<Rightarrow> 'd filesystem \<Rightarrow> error + 'd filesystem" where
  "fs_makedirs name fs =
     (if name = [] then Inl FileNotFoundError
      else if list_ex (\<lambda>p. p \<in> dom (files fs)) (parent_dirs name) then Inl NotADirectoryError
      else if name \<in> dom (files fs) then Inl FileExistsError
      else Inr (fs\<lparr>dirs := dirs fs \<union> set (parent_dirs name) \<union> {name}\<rparr>))"

text \<open>
  \<^verbatim>\<open>shutil.copyfile(src, dst)\<close>: the destination is created or overwritten with the
  content of the source. The checks are made in the order of the library: same file
  (source and destination exist and are one file or one directory), source readable,
  destination writable. Two paths are the same file when they are the same string; this
  is the library's test for paths in the normal form of \<open>normal_abs_path\<close> below.
\<close>

definition fs_copyfile :: "string \<Rightarrow> string \<Rightarrow> 'd filesystem \<Rightarrow> error + 'd filesystem" where
  "fs_copyfile src dst fs =
     (if src = dst \<and> (src \<in> dom (files fs) \<or> src \<in> dirs fs) then Inl SameFileError
      else if src \<in> dirs fs then Inl IsADirectoryError
      else
        (case files fs src of
           None \<Rightarrow> Inl FileNotFoundError
         | Some content \<Rightarrow>
             if dst \<in> dirs fs \<or> basename dst = [] then Inl IsADirectoryError
             else if dirname dst \<noteq> [] \<and> dirname dst \<noteq> ''/'' \<and> dirname dst \<notin> dirs fs
               then Inl FileNotFoundError
             else Inr (fs\<lparr>files := (files fs)(dst \<mapsto> content)\<rparr>)))"




subsection \<open>A concrete world\<close>

text \<open>
  The scenario of the specification: three nodes, two service functions, one chain. The
  simulator answers every call with the same state and leaves the file system alone;
  the random number generator always draws 4242.
\<close>

definition demo_state :: "(string, string, string, nat) simulator_state" where
  "demo_state =
     \<lparr>state_network_nodes = [''pop0'', ''pop1'', ''pop2''],
      state_service_functions = [''a'', ''b''],
      state_sfcs = [''sfc_1''],
      network_stats = 0\<rparr>"

definition demo_network :: "(string \<times> (string \<rightharpoonup> string)) list" where
  "demo_network =
     [(''pop0'', [''type'' \<mapsto> ''Ingress'']),
      (''pop1'', [''type'' \<mapsto> ''Normal'']),
      (''pop2'', [''type'' \<mapsto> ''Ingress''])]"

definition demo_env :: "(nat filesystem, string, string, string, nat) env" where
  "demo_env =
     \<lparr>randint = (\<lambda>lo hi w. (4242, w)),
      makedirs = fs_makedirs,
      copyfile = fs_copyfile,
      basicConfig = (\<lambda>filename w. Inr w),
      abspath = (\<lambda>p. ''/w/'' @ p),
      project_root = ''/r'',
      DATETIME = ''T'',
      new_simulator = (\<lambda>network_path service_path config_path test_dir w. Inr w),
      simulator_init = (\<lambda>s w. Inr (demo_state, w)),
      simulator_apply = (\<lambda>a w. Inr (demo_state, w)),
      simulator_network = (\<lambda>w. demo_network),
      env_normalizer = uniform_normalizer,
      create_input_file = (\<lambda>target_dir ingress strategy w. Inr w)\<rparr>"

definition demo_files :: "nat filesystem" where
  "demo_files =
     \<lparr>dirs = {''/w''},
      files = [''/w/n.yaml'' \<mapsto> 1, ''/w/s.yaml'' \<mapsto> 2, ''/w/c.yaml'' \<mapsto> 3]\<rparr>"


definition demo_args :: "int \<Rightarrow> int option \<Rightarrow> args" where
  "demo_args n s =
     \<lparr>iterations = n, seed = s, network = ''n.yaml'', service_functions = ''s.yaml'',
      config = ''c.yaml''\<rparr>"

text \<open>A normalizer that returns at every position its index: it shows who pops what.\<close>

definition index_normalizer :: normalizer where
  "index_normalizer ws = Inr (map real [0 ..< length ws])"


subsection \<open>Notions used to state the properties\<close>

text \<open>A run completes when it raises no exception.\<close>

definition completes :: "'e list \<times> (error + 'a) \<Rightarrow> bool" where
  "completes r = (case snd r of Inl e \<Rightarrow> False | Inr x \<Rightarrow> True)"

text \<open>The distribution stored so far, or the empty one.\<close>

definition or_empty :: "('a \<rightharpoonup> 'b) option \<Rightarrow> ('a \<rightharpoonup> 'b)" where
  "or_empty m = (case m of None \<Rightarrow> Map.empty | Some d \<Rightarrow> d)"

text \<open>
  The distribution that one pass of the innermost loop writes: the pairs of a node and
  the value popped for it, a later pair of the same node winning.
\<close>

definition assigned :: "'n list \<Rightarrow> real list \<Rightarrow> 'n distribution" where
  "assigned nodes ps = map_of (rev (zip nodes (rev ps)))"



subsection \<open>The two phases of main\<close>

text \<open>
  \<open>main_head\<close> is \<^verbatim>\<open>main\<close> up to the construction of the schedule (lines 117-147),
  \<open>main_tail\<close> is the rest (lines 148-155); \<open>main\<close> is the first followed by the
  second (lemma \<open>main_decomp\<close>).
\<close>

definition main_head ::
  "('w, 'n, 'c, 'f, 's) env \<Rightarrow> args \<Rightarrow>
   (('n, 'c, 'f, 's) event, 'w,
    int \<times> ('n, 'c, 'f, 's) simulator_state \<times> 'n list \<times> ('n, 'c, 'f) schedule) prog" where
  "main_head env args =
     and_then (resolve_seed env (seed args)) (\<lambda>args_seed.
     and_then (exec (MakeDirs ''logs'') (makedirs env ''logs'')) (\<lambda>_.
     and_then (exec (BasicConfig (log_filename env args args_seed))
                 (basicConfig env (log_filename env args args_seed))) (\<lambda>_.
     and_then (emit (SetLevel ''coordsim'')) (\<lambda>_.
     and_then (exec (NewSimulator (abspath env (network args))
                       (abspath env (service_functions args)) (abspath env (config args))
                       (results_dir env args args_seed))
                 (new_simulator env (abspath env (network args))
                    (abspath env (service_functions args)) (abspath env (config args))
                    (results_dir env args args_seed))) (\<lambda>_.
     and_then (call (SimInit args_seed) (simulator_init env args_seed)) (\<lambda>init_state.
     and_then (emit (LogInfoInit (network_stats init_state))) (\<lambda>_.
     and_then (\<lambda>w. lift (get_ingress_nodes (simulator_network env w)) w) (\<lambda>ingress_nodes.
     and_then (lift (get_schedule (env_normalizer env) (state_network_nodes init_state)
                       (state_service_functions init_state) (state_sfcs init_state)))
       (\<lambda>schedule. return (args_seed, init_state, ingress_nodes, schedule))))))))))"

definition main_tail ::
  "('w, 'n, 'c, 'f, 's) env \<Rightarrow> args \<Rightarrow>
   int \<times> ('n, 'c, 'f, 's) simulator_state \<times> 'n list \<times> ('n, 'c, 'f) schedule \<Rightarrow>
   (('n, 'c, 'f, 's) event, 'w, unit) prog" where
  "main_tail env args found =
     (case found of (args_seed, init_state, ingress_nodes, schedule) \<Rightarrow>
     and_then (apply_loop env
                 (SimulatorAction
                    (get_placement (state_network_nodes init_state)
                       (state_service_functions init_state))
                    schedule)
                 [0 ..< nat (iterations args)]) (\<lambda>_.
     and_then (copy_input_files env (results_dir env args args_seed)
                 (abspath env (network args)) (abspath env (service_functions args))
                 (abspath env (config args))) (\<lambda>_.
     exec (CreateInputFile (results_dir env args args_seed) (length ingress_nodes)
             ''LoadBalance'')
       (create_input_file env (results_dir env args args_seed) (length ingress_nodes)
          ''LoadBalance''))))"

subsection \<open>More concrete inputs\<close>



text \<open>The seed the concrete world ends up with.\<close>

definition demo_seed :: "int option \<Rightarrow> int" where
  "demo_seed given = (case given of None \<Rightarrow> 4242 | Some v \<Rightarrow> if v = 0 then 4242 else v)"



section \<open>Properties of the schedule builder\<close>

lemma pop_snoc: "pop (xs @ [x]) = Inr (x, xs)"
  by (simp add: pop_def)


lemma schedule_lookup_setitem:
  "schedule_lookup (schedule_setitem s a c f n v) a' c' f' =
     (if a' = a \<and> c' = c \<and> f' = f
      then Some ((case schedule_lookup s a c f of None \<Rightarrow> Map.empty | Some d \<Rightarrow> d)(n \<mapsto> v))
      else schedule_lookup s a' c' f')"
  by (auto simp: schedule_lookup_def schedule_setitem_def getitem_default_def Let_def
      split: option.splits)

lemma inner_node_loop_fold:
  "length nodes \<le> length ps \<Longrightarrow>
   inner_node_loop s a c f nodes ps =
     Inr (fold (\<lambda>(n, v) s. schedule_setitem s a c f n v) (zip nodes (rev ps)) s,
          take (length ps - length nodes) ps)"
proof (induction nodes arbitrary: s ps)
  case Nil
  then show ?case by simp
next
  case (Cons n nodes)
  then obtain qs q where ps: "ps = qs @ [q]"
    by (cases ps rule: rev_cases) auto
  with Cons.prems have len: "length nodes \<le> length qs" by simp
  show ?case
    using Cons.IH [OF len, of "schedule_setitem s a c f n q"]
    by (simp add: ps pop_snoc)
qed

lemma schedule_lookup_fold:
  "schedule_lookup (fold (\<lambda>(n, v) s. schedule_setitem s a c f n v) zs s) a' c' f' =
     (if a' = a \<and> c' = c \<and> f' = f \<and> zs \<noteq> []
      then Some ((case schedule_lookup s a c f of None \<Rightarrow> Map.empty | Some d \<Rightarrow> d) ++ map_of (rev zs))
      else schedule_lookup s a' c' f')"
proof (induction zs arbitrary: s)
  case Nil
  then show ?case by simp
next
  case (Cons z zs)
  obtain n v where z: "z = (n, v)" by (cases z)
  show ?case
    by (cases "zs = []") (auto simp: z Cons.IH schedule_lookup_setitem map_add_def fun_eq_iff split: option.splits)
qed




lemma map_add_twice: "(m ++ g) ++ g = m ++ g"
  by (simp add: map_add_def fun_eq_iff split: option.splits)

lemma inner_node_loop_lookup:
  assumes "length ps = length nodes" "nodes \<noteq> []"
  shows "\<exists>s'. inner_node_loop s a c f nodes ps = Inr (s', []) \<and>
    (\<forall>a' c' f'. schedule_lookup s' a' c' f' =
       (if a' = a \<and> c' = c \<and> f' = f
        then Some (or_empty (schedule_lookup s a c f) ++ assigned nodes ps)
        else schedule_lookup s a' c' f'))"
proof -
  from assms have "zip nodes (rev ps) \<noteq> []"
    by (cases nodes; cases "rev ps") auto
  then show ?thesis
    using assms by (simp add: inner_node_loop_fold schedule_lookup_fold or_empty_def assigned_def)
qed

lemma sf_loop_lookup:
  assumes "nrm (replicate (length nodes) 0) = Inr ps" "length ps = length nodes" "nodes \<noteq> []"
  shows "\<exists>s'. sf_loop nrm nodes s a c fs = Inr s' \<and>
    (\<forall>a' c' f'. schedule_lookup s' a' c' f' =
       (if a' = a \<and> c' = c \<and> f' \<in> set fs
        then Some (or_empty (schedule_lookup s a c f') ++ assigned nodes ps)
        else schedule_lookup s a' c' f'))"
proof (induction fs arbitrary: s)
  case Nil
  then show ?case by simp
next
  case (Cons f fs)
  obtain s1 where s1: "inner_node_loop s a c f nodes ps = Inr (s1, [])"
    and l1: "\<And>a' c' f'. schedule_lookup s1 a' c' f' =
       (if a' = a \<and> c' = c \<and> f' = f
        then Some (or_empty (schedule_lookup s a c f) ++ assigned nodes ps)
        else schedule_lookup s a' c' f')"
    using inner_node_loop_lookup [of ps nodes s a c f] assms(2,3) by blast
  obtain s2 where s2: "sf_loop nrm nodes s1 a c fs = Inr s2"
    and l2: "\<And>a' c' f'. schedule_lookup s2 a' c' f' =
       (if a' = a \<and> c' = c \<and> f' \<in> set fs
        then Some (or_empty (schedule_lookup s1 a c f') ++ assigned nodes ps)
        else schedule_lookup s1 a' c' f')"
    using Cons.IH [of s1] by blast
  have "sf_loop nrm nodes s a c (f # fs) = Inr s2"
    by (simp add: assms(1) s1 s2)
  moreover have "schedule_lookup s2 a' c' f' =
       (if a' = a \<and> c' = c \<and> f' \<in> set (f # fs)
        then Some (or_empty (schedule_lookup s a c f') ++ assigned nodes ps)
        else schedule_lookup s a' c' f')" for a' c' f'
    by (auto simp: l1 l2 or_empty_def map_add_twice)
  ultimately show ?case by blast
qed

lemma sfc_loop_lookup:
  assumes "nrm (replicate (length nodes) 0) = Inr ps" "length ps = length nodes" "nodes \<noteq> []"
  shows "\<exists>s'. sfc_loop nrm nodes fs s a cs = Inr s' \<and>
    (\<forall>a' c' f'. schedule_lookup s' a' c' f' =
       (if a' = a \<and> c' \<in> set cs \<and> f' \<in> set fs
        then Some (or_empty (schedule_lookup s a c' f') ++ assigned nodes ps)
        else schedule_lookup s a' c' f'))"
proof (induction cs arbitrary: s)
  case Nil
  then show ?case by simp
next
  case (Cons c cs)
  obtain s1 where s1: "sf_loop nrm nodes s a c fs = Inr s1"
    and l1: "\<And>a' c' f'. schedule_lookup s1 a' c' f' =
       (if a' = a \<and> c' = c \<and> f' \<in> set fs
        then Some (or_empty (schedule_lookup s a c f') ++ assigned nodes ps)
        else schedule_lookup s a' c' f')"
    using sf_loop_lookup [of nrm nodes ps s a c fs] assms by blast
  obtain s2 where s2: "sfc_loop nrm nodes fs s1 a cs = Inr s2"
    and l2: "\<And>a' c' f'. schedule_lookup s2 a' c' f' =
       (if a' = a \<and> c' \<in> set cs \<and> f' \<in> set fs
        then Some (or_empty (schedule_lookup s1 a c' f') ++ assigned nodes ps)
        else schedule_lookup s1 a' c' f')"
    using Cons.IH [of s1] by blast
  have "sfc_loop nrm nodes fs s a (c # cs) = Inr s2"
    by (simp add: s1 s2)
  moreover have "schedule_lookup s2 a' c' f' =
       (if a' = a \<and> c' \<in> set (c # cs) \<and> f' \<in> set fs
        then Some (or_empty (schedule_lookup s a c' f') ++ assigned nodes ps)
        else schedule_lookup s a' c' f')" for a' c' f'
    by (auto simp: l1 l2 or_empty_def map_add_twice)
  ultimately show ?case by blast
qed

lemma outer_node_loop_lookup:
  assumes "nrm (replicate (length nodes) 0) = Inr ps" "length ps = length nodes" "nodes \<noteq> []"
  shows "\<exists>s'. outer_node_loop nrm nodes fs cs s as = Inr s' \<and>
    (\<forall>a' c' f'. schedule_lookup s' a' c' f' =
       (if a' \<in> set as \<and> c' \<in> set cs \<and> f' \<in> set fs
        then Some (or_empty (schedule_lookup s a' c' f') ++ assigned nodes ps)
        else schedule_lookup s a' c' f'))"
proof (induction as arbitrary: s)
  case Nil
  then show ?case by simp
next
  case (Cons a as)
  obtain s1 where s1: "sfc_loop nrm nodes fs s a cs = Inr s1"
    and l1: "\<And>a' c' f'. schedule_lookup s1 a' c' f' =
       (if a' = a \<and> c' \<in> set cs \<and> f' \<in> set fs
        then Some (or_empty (schedule_lookup s a c' f') ++ assigned nodes ps)
        else schedule_lookup s a' c' f')"
    using sfc_loop_lookup [of nrm nodes ps fs s a cs] assms by blast
  obtain s2 where s2: "outer_node_loop nrm nodes fs cs s1 as = Inr s2"
    and l2: "\<And>a' c' f'. schedule_lookup s2 a' c' f' =
       (if a' \<in> set as \<and> c' \<in> set cs \<and> f' \<in> set fs
        then Some (or_empty (schedule_lookup s1 a' c' f') ++ assigned nodes ps)
        else schedule_lookup s1 a' c' f')"
    using Cons.IH [of s1] by blast
  have "outer_node_loop nrm nodes fs cs s (a # as) = Inr s2"
    by (simp add: s1 s2)
  moreover have "schedule_lookup s2 a' c' f' =
       (if a' \<in> set (a # as) \<and> c' \<in> set cs \<and> f' \<in> set fs
        then Some (or_empty (schedule_lookup s a' c' f') ++ assigned nodes ps)
        else schedule_lookup s a' c' f')" for a' c' f'
    by (auto simp: l1 l2 or_empty_def map_add_twice)
  ultimately show ?case by blast
qed

lemma schedule_lookup_empty: "schedule_lookup Map.empty a c f = None"
  by (simp add: schedule_lookup_def)

lemma get_schedule_lookup:
  assumes "nrm (replicate (length nodes) 0) = Inr ps" "length ps = length nodes"
  shows "\<exists>s'. get_schedule nrm nodes fs cs = Inr s' \<and>
    (\<forall>a c f. schedule_lookup s' a c f =
       (if a \<in> set nodes \<and> c \<in> set cs \<and> f \<in> set fs
        then Some (assigned nodes ps) else None))"
proof (cases "nodes = []")
  case True
  then show ?thesis by (simp add: get_schedule_def schedule_lookup_def)
next
  case False
  obtain s' where s': "outer_node_loop nrm nodes fs cs Map.empty nodes = Inr s'"
    and l: "\<And>a' c' f'. schedule_lookup s' a' c' f' =
       (if a' \<in> set nodes \<and> c' \<in> set cs \<and> f' \<in> set fs
        then Some (or_empty (schedule_lookup Map.empty a' c' f') ++ assigned nodes ps)
        else schedule_lookup Map.empty a' c' f')"
    using outer_node_loop_lookup [of nrm nodes ps fs cs Map.empty nodes] assms False by blast
  have "get_schedule nrm nodes fs cs = Inr s'"
    by (simp add: get_schedule_def s')
  moreover have "schedule_lookup s' a c f =
       (if a \<in> set nodes \<and> c \<in> set cs \<and> f \<in> set fs
        then Some (assigned nodes ps) else None)" for a c f
    by (simp add: l schedule_lookup_empty or_empty_def)
  ultimately show ?thesis by blast
qed

lemma fst_set_zip: "length xs = length ys \<Longrightarrow> fst ` set (zip xs ys) = set xs"
  by (metis list.set_map map_fst_zip)

lemma map_of_rev_zip_last:
  "length xs = length ys \<Longrightarrow> i < length xs \<Longrightarrow>
   (\<And>j. i < j \<Longrightarrow> j < length xs \<Longrightarrow> xs ! j \<noteq> xs ! i) \<Longrightarrow>
   map_of (rev (zip xs ys)) (xs ! i) = Some (ys ! i)"
proof (induction xs ys arbitrary: i rule: list_induct2)
  case Nil
  then show ?case by simp
next
  case (Cons x xs y ys)
  show ?case
  proof (cases i)
    case 0
    have "x \<notin> set xs"
    proof
      assume "x \<in> set xs"
      then obtain k where "k < length xs" "xs ! k = x" by (auto simp: in_set_conv_nth)
      with Cons.prems(2) [of "Suc k"] 0 show False by simp
    qed
    then have "map_of (rev (zip xs ys)) x = None"
      using Cons.hyps by (simp add: map_of_eq_None_iff fst_set_zip)
    then show ?thesis by (simp add: 0 map_add_def)
  next
    case (Suc k)
    have "map_of (rev (zip xs ys)) (xs ! k) = Some (ys ! k)"
    proof (rule Cons.IH)
      show "k < length xs" using Cons.prems(1) Suc by simp
      fix j assume "k < j" "j < length xs"
      then show "xs ! j \<noteq> xs ! k" using Cons.prems(2) [of "Suc j"] Suc by simp
    qed
    then show ?thesis by (simp add: Suc map_add_def)
  qed
qed

lemma assigned_last_occurrence:
  assumes "length ps = length nodes" "i < length nodes"
    and "\<And>j. i < j \<Longrightarrow> j < length nodes \<Longrightarrow> nodes ! j \<noteq> nodes ! i"
  shows "assigned nodes ps (nodes ! i) = Some (ps ! (length nodes - 1 - i))"
  using map_of_rev_zip_last [of nodes "rev ps" i] assms
  by (simp add: assigned_def rev_nth)

lemma dom_assigned: "length ps = length nodes \<Longrightarrow> dom (assigned nodes ps) = set nodes"
  by (simp add: assigned_def dom_map_of_conv_image_fst fst_set_zip)

lemma assigned_replicate:
  "assigned nodes (replicate (length nodes) v) = (\<lambda>n. if n \<in> set nodes then Some v else None)"
proof
  fix n
  show "assigned nodes (replicate (length nodes) v) n = (if n \<in> set nodes then Some v else None)"
  proof (cases "n \<in> set nodes")
    case False
    then show ?thesis
      using dom_assigned [of "replicate (length nodes) v" nodes] by (auto simp: domIff)
  next
    case True
    then obtain w where w: "assigned nodes (replicate (length nodes) v) n = Some w"
      using dom_assigned [of "replicate (length nodes) v" nodes] by (auto simp: domIff)
    then have "(n, w) \<in> set (zip nodes (replicate (length nodes) v))"
      by (auto simp: assigned_def dest: map_of_SomeD)
    then have "w = v" by (auto dest: set_zip_rightD)
    with w True show ?thesis by simp
  qed
qed


section \<open>The claims about the builders\<close>

lemma get_placement_loop_apply:
  "get_placement_loop placement nodes_list sf_list node =
     (if node \<in> set nodes_list then Some sf_list else placement node)"
  by (induction nodes_list arbitrary: placement) auto

lemma get_placement_apply:
  "get_placement nodes_list sf_list node =
     (if node \<in> set nodes_list then Some sf_list else None)"
  by (simp add: get_placement_def get_placement_loop_apply)

text \<open>
  Claim C4, as amended. For any node list and any service-function list, the placement
  maps every node of the list to the full service-function list (the very list, hence
  the same set of functions), its keys are exactly the nodes of the list, and the number
  of its entries is the number of distinct nodes of the list; that is the length of the
  list when no node is repeated.
\<close>

theorem get_placement_entries:
  "(\<forall>node \<in> set nodes_list. get_placement nodes_list sf_list node = Some sf_list) \<and>
   dom (get_placement nodes_list sf_list) = set nodes_list \<and>
   card (dom (get_placement nodes_list sf_list)) = card (set nodes_list) \<and>
   (distinct nodes_list \<longrightarrow>
      card (dom (get_placement nodes_list sf_list)) = length nodes_list)"
proof -
  have d: "dom (get_placement nodes_list sf_list) = set nodes_list"
    by (auto simp: get_placement_apply domIff split: if_splits)
  show ?thesis
    by (simp add: d get_placement_apply distinct_card)
qed

text \<open>Three distinct nodes and two functions: three entries, each the full list.\<close>

theorem get_placement_entries_witness:
  "get_placement [''n1'', ''n2'', ''n3''] [''fw'', ''nat''] ''n2'' = Some [''fw'', ''nat''] \<and>
   dom (get_placement [''n1'', ''n2'', ''n3''] [''fw'', ''nat'']) = {''n1'', ''n2'', ''n3''} \<and>
   card (dom (get_placement [''n1'', ''n2'', ''n3''] [''fw'', ''nat''])) = 3"
  using get_placement_entries [of "[''n1'', ''n2'', ''n3'']" "[''fw'', ''nat'']"]
  by simp

text \<open>
  Claim C4 as stated fails on a list that repeats a node: the list has two elements,
  the placement one entry.
\<close>

theorem get_placement_repeated_node_counterexample:
  "card (dom (get_placement [''n1'', ''n1''] [''fw''])) \<noteq> length [''n1'', ''n1'']"
  by (simp add: get_placement_def)

text \<open>
  Claim C3, as amended. With zero nodes the schedule builder has no guard: no loop body
  runs, the normalizer is never called, no exception is raised, and the empty schedule
  is returned, whatever the normalizer, the functions and the chains are.
\<close>

theorem get_schedule_no_nodes:
  "get_schedule normalize_scheduling_probabilities [] sf_list sfc_list = Inr Map.empty"
  by (simp add: get_schedule_def)

text \<open>
  Claim C3 as stated fails: with zero nodes, and even with a normalizer that raises on
  every input, the builder returns normally with the empty schedule.
\<close>

theorem get_schedule_no_nodes_counterexample:
  "get_schedule raising_normalizer ([] :: string list) [''fw''] [''sfc_1''] = Inr Map.empty"
  by (simp add: get_schedule_def)

text \<open>
  Claim C1. For a non-empty node list without repetitions, and a normalizer that maps
  the all-zero list of that length to as many values \<open>1 / n\<close>, the builder returns a
  schedule that holds, for every origin node, chain and function, a distribution with
  exactly one entry per node of the list, \<open>n\<close> entries in all, each \<open>1 / n\<close>, summing
  to 1 (hence within \<open>10\<^sup>-\<^sup>9\<close> of 1).
\<close>

theorem get_schedule_uniform:
  assumes "nodes_list \<noteq> []" and "distinct nodes_list"
    and "normalize_scheduling_probabilities (replicate (length nodes_list) 0) =
           Inr (replicate (length nodes_list) (1 / real (length nodes_list)))"
  shows "\<exists>schedule.
     get_schedule normalize_scheduling_probabilities nodes_list sf_list sfc_list = Inr schedule \<and>
     (\<forall>outer_node \<in> set nodes_list. \<forall>sfc \<in> set sfc_list. \<forall>sf \<in> set sf_list.
        \<exists>dist. schedule_lookup schedule outer_node sfc sf = Some dist \<and>
          dom dist = set nodes_list \<and>
          card (dom dist) = length nodes_list \<and>
          (\<forall>inner_node \<in> set nodes_list.
             dist inner_node = Some (1 / real (length nodes_list))) \<and>
          (\<Sum>inner_node \<in> dom dist. the (dist inner_node)) = 1 \<and>
          \<bar>(\<Sum>inner_node \<in> dom dist. the (dist inner_node)) - 1\<bar> \<le> 1 / 10 ^ 9)"
proof -
  let ?n = "length nodes_list"
  let ?d = "\<lambda>n. if n \<in> set nodes_list then Some (1 / real ?n) else None"
  obtain schedule where s: "get_schedule normalize_scheduling_probabilities nodes_list sf_list sfc_list = Inr schedule"
    and l: "\<And>a c f. schedule_lookup schedule a c f =
       (if a \<in> set nodes_list \<and> c \<in> set sfc_list \<and> f \<in> set sf_list
        then Some (assigned nodes_list (replicate ?n (1 / real ?n))) else None)"
    using get_schedule_lookup [of normalize_scheduling_probabilities nodes_list "replicate ?n (1 / real ?n)" sf_list sfc_list]
      assms(3) by auto
  have dom: "dom ?d = set nodes_list"
    by (auto simp: domIff split: if_splits)
  have card: "card (set nodes_list) = ?n"
    using assms(2) by (simp add: distinct_card)
  have "?n > 0" using assms(1) by simp
  then have sum: "(\<Sum>inner_node \<in> set nodes_list. the (?d inner_node)) = 1"
    by (simp add: card)
  have "\<exists>dist. schedule_lookup schedule a c f = Some dist \<and>
          dom dist = set nodes_list \<and>
          card (dom dist) = ?n \<and>
          (\<forall>inner_node \<in> set nodes_list. dist inner_node = Some (1 / real ?n)) \<and>
          (\<Sum>inner_node \<in> dom dist. the (dist inner_node)) = 1 \<and>
          \<bar>(\<Sum>inner_node \<in> dom dist. the (dist inner_node)) - 1\<bar> \<le> 1 / 10 ^ 9"
    if "a \<in> set nodes_list" "c \<in> set sfc_list" "f \<in> set sf_list" for a c f
  proof (intro exI conjI)
    show "schedule_lookup schedule a c f = Some ?d"
      using that by (simp add: l assigned_replicate)
    show "dom ?d = set nodes_list" by (rule dom)
    show "card (dom ?d) = ?n" by (simp only: dom card)
    show "\<forall>inner_node \<in> set nodes_list. ?d inner_node = Some (1 / real ?n)" by simp
    show "(\<Sum>inner_node \<in> dom ?d. the (?d inner_node)) = 1"
      by (simp only: dom sum)
    then show "\<bar>(\<Sum>inner_node \<in> dom ?d. the (?d inner_node)) - 1\<bar> \<le> 1 / 10 ^ 9"
      by simp
  qed
  with s show ?thesis by blast
qed

text \<open>The scenario of three nodes, two functions and one chain.\<close>

theorem get_schedule_uniform_witness:
  "\<exists>schedule dist.
     get_schedule uniform_normalizer [''n1'', ''n2'', ''n3''] [''fw'', ''nat''] [''sfc_1''] =
       Inr schedule \<and>
     schedule_lookup schedule ''n2'' ''sfc_1'' ''nat'' = Some dist \<and>
     dom dist = {''n1'', ''n2'', ''n3''} \<and>
     card (dom dist) = 3 \<and>
     dist ''n3'' = Some (1 / 3) \<and>
     (\<Sum>inner_node \<in> dom dist. the (dist inner_node)) = 1"
proof -
  have "uniform_normalizer (replicate (length [''n1'', ''n2'', ''n3'']) 0) =
      Inr (replicate (length [''n1'', ''n2'', ''n3''])
        (1 / real (length [''n1'', ''n2'', ''n3''])))"
    by (simp add: uniform_normalizer_def)
  with get_schedule_uniform [of "[''n1'', ''n2'', ''n3'']" uniform_normalizer
      "[''fw'', ''nat'']" "[''sfc_1'']"]
  show ?thesis by fastforce
qed

text \<open>
  Claim C8. When the normalizer returns, for the all-zero list of the length of the node
  list, a list of that same length, no \<^verbatim>\<open>pop\<close> fails: the builder returns a schedule,
  and every pass of the innermost loop pops one element per node and leaves the list
  empty. Repeated nodes are allowed.
\<close>

theorem get_schedule_pop_never_fails:
  assumes "normalize_scheduling_probabilities (replicate (length nodes_list) 0) =
             Inr uniform_prob_list"
    and "length uniform_prob_list = length nodes_list"
  shows "(\<exists>schedule. get_schedule normalize_scheduling_probabilities nodes_list sf_list sfc_list =
            Inr schedule) \<and>
         (\<exists>schedule'. inner_node_loop schedule outer_node sfc sf nodes_list uniform_prob_list =
            Inr (schedule', []))"
proof
  show "\<exists>schedule. get_schedule normalize_scheduling_probabilities nodes_list sf_list sfc_list =
            Inr schedule"
    using get_schedule_lookup [of normalize_scheduling_probabilities nodes_list uniform_prob_list sf_list sfc_list] assms by blast
  show "\<exists>schedule'. inner_node_loop schedule outer_node sfc sf nodes_list uniform_prob_list =
            Inr (schedule', [])"
    using assms(2) by (simp add: inner_node_loop_fold)
qed

text \<open>A node list with a repeated node.\<close>

theorem get_schedule_pop_never_fails_witness:
  "(\<exists>schedule. get_schedule identity_normalizer [''n1'', ''n1'', ''n2''] [''fw''] [''sfc_1''] =
            Inr schedule) \<and>
   (\<exists>schedule'. inner_node_loop Map.empty ''n1'' ''sfc_1'' ''fw'' [''n1'', ''n1'', ''n2''] [0, 0, 0] =
            Inr (schedule', []))"
  using get_schedule_pop_never_fails [of identity_normalizer "[''n1'', ''n1'', ''n2'']" "[0, 0, 0]"
     "[''fw'']" "[''sfc_1'']" Map.empty "''n1''" "''sfc_1''" "''fw''"]
  by (simp add: identity_normalizer_def)

text \<open>
  Claim C9. The innermost loop stores, for the nodes in list order, the elements of the
  normalized list in reverse order: the stores are those of the pairs of
  \<open>zip nodes_list (rev uniform_prob_list)\<close>, and position \<open>i\<close> of the reversed list is
  position \<open>len - 1 - i\<close> of the list. In the returned schedule the node at position
  \<open>i\<close> therefore holds that element, provided the node does not occur again later in
  the list (a later store to the same node overwrites an earlier one).
\<close>

theorem get_schedule_reverse_order:
  assumes "normalize_scheduling_probabilities (replicate (length nodes_list) 0) =
             Inr uniform_prob_list"
    and "length uniform_prob_list = length nodes_list"
    and "outer_node \<in> set nodes_list" and "sfc \<in> set sfc_list" and "sf \<in> set sf_list"
    and "i < length nodes_list"
    and "\<forall>j. i < j \<and> j < length nodes_list \<longrightarrow> nodes_list ! j \<noteq> nodes_list ! i"
  shows "inner_node_loop schedule0 outer_node sfc sf nodes_list uniform_prob_list =
           Inr (fold (\<lambda>(inner_node, v) schedule.
                        schedule_setitem schedule outer_node sfc sf inner_node v)
                  (zip nodes_list (rev uniform_prob_list)) schedule0, []) \<and>
         rev uniform_prob_list ! i = uniform_prob_list ! (length nodes_list - 1 - i) \<and>
         (\<exists>schedule dist.
            get_schedule normalize_scheduling_probabilities nodes_list sf_list sfc_list =
              Inr schedule \<and>
            schedule_lookup schedule outer_node sfc sf = Some dist \<and>
            dist (nodes_list ! i) = Some (uniform_prob_list ! (length nodes_list - 1 - i)))"
proof (intro conjI)
  show "inner_node_loop schedule0 outer_node sfc sf nodes_list uniform_prob_list =
           Inr (fold (\<lambda>(inner_node, v) schedule.
                        schedule_setitem schedule outer_node sfc sf inner_node v)
                  (zip nodes_list (rev uniform_prob_list)) schedule0, [])"
    using assms(2) by (simp add: inner_node_loop_fold)
  show "rev uniform_prob_list ! i = uniform_prob_list ! (length nodes_list - 1 - i)"
    using assms(2,6) by (simp add: rev_nth)
  obtain schedule where s: "get_schedule normalize_scheduling_probabilities nodes_list sf_list sfc_list = Inr schedule"
    and l: "\<And>a c f. schedule_lookup schedule a c f =
       (if a \<in> set nodes_list \<and> c \<in> set sfc_list \<and> f \<in> set sf_list
        then Some (assigned nodes_list uniform_prob_list) else None)"
    using get_schedule_lookup [of normalize_scheduling_probabilities nodes_list uniform_prob_list sf_list sfc_list]
      assms(1,2) by auto
  have "schedule_lookup schedule outer_node sfc sf = Some (assigned nodes_list uniform_prob_list)"
    using assms(3,4,5) by (simp add: l)
  moreover have "assigned nodes_list uniform_prob_list (nodes_list ! i) =
      Some (uniform_prob_list ! (length nodes_list - 1 - i))"
    using assms(2,6,7) by (intro assigned_last_occurrence) auto
  ultimately show "\<exists>schedule dist.
            get_schedule normalize_scheduling_probabilities nodes_list sf_list sfc_list =
              Inr schedule \<and>
            schedule_lookup schedule outer_node sfc sf = Some dist \<and>
            dist (nodes_list ! i) = Some (uniform_prob_list ! (length nodes_list - 1 - i))"
    using s by blast
qed


text \<open>
  With a normalizer that returns \<open>[0, 1, 2]\<close> the first node holds 2, the last
  element.
\<close>

theorem get_schedule_reverse_order_witness:
  "\<exists>schedule dist.
     get_schedule index_normalizer [''pop0'', ''pop1'', ''pop2''] [''a''] [''sfc_1''] =
       Inr schedule \<and>
     schedule_lookup schedule ''pop0'' ''sfc_1'' ''a'' = Some dist \<and>
     dist ''pop0'' = Some 2"
proof -
  have n: "index_normalizer (replicate (length [''pop0'', ''pop1'', ''pop2'']) 0) =
      Inr [0, 1, 2]"
    by (simp add: index_normalizer_def upt_rec)
  have l: "\<forall>j. 0 < j \<and> j < length [''pop0'', ''pop1'', ''pop2''] \<longrightarrow>
      [''pop0'', ''pop1'', ''pop2''] ! j \<noteq> [''pop0'', ''pop1'', ''pop2''] ! 0"
    by (auto simp: nth_Cons' less_Suc_eq)
  show ?thesis
    using get_schedule_reverse_order [where nodes_list = "[''pop0'', ''pop1'', ''pop2'']"
        and normalize_scheduling_probabilities = index_normalizer
        and uniform_prob_list = "[0, 1, 2]" and outer_node = "''pop0''"
        and sfc = "''sfc_1''" and sfc_list = "[''sfc_1'']" and sf = "''a''"
        and sf_list = "[''a'']" and i = 0 and ?schedule0.0 = Map.empty, OF n _ _ _ _ _ l]
    by simp
qed

section \<open>Properties of the run driver\<close>

lemma and_then_assoc:
  "and_then (and_then m k) h = and_then m (\<lambda>x. and_then (k x) h)"
  by (rule ext) (simp add: and_then_def split: prod.splits sum.splits)

lemma return_and_then: "and_then (return x) k = k x"
  by (rule ext) (simp add: and_then_def return_def)

lemma main_decomp: "main env args = and_then (main_head env args) (main_tail env args)"
  by (simp add: main_def main_head_def main_tail_def and_then_assoc return_and_then)


lemma fst_and_then:
  "fst (and_then m k w) =
     fst (m w) @ (case snd (m w) of Inl e \<Rightarrow> [] | Inr (x, w') \<Rightarrow> fst (k x w'))"
  by (simp add: and_then_def split: prod.splits sum.splits)

lemma snd_and_then:
  "snd (and_then m k w) =
     (case snd (m w) of Inl e \<Rightarrow> Inl e | Inr (x, w') \<Rightarrow> snd (k x w'))"
  by (simp add: and_then_def split: prod.splits sum.splits)

lemma fst_steps:
  "fst (exec ev operation w) = [ev]"
  "fst (call ev operation' w) = [ev]"
  "fst (emit ev w) = [ev]"
  "fst (lift r w) = []"
  "fst (return x w) = []"
  by (simp_all add: exec_def call_def emit_def lift_def return_def)

lemma snd_steps:
  "snd (exec ev operation w) = (case operation w of Inl e \<Rightarrow> Inl e | Inr w' \<Rightarrow> Inr ((), w'))"
  "snd (call ev operation' w) = operation' w"
  "snd (emit ev w) = Inr ((), w)"
  "snd (lift r w) = (case r of Inl e \<Rightarrow> Inl e | Inr x \<Rightarrow> Inr (x, w))"
  "snd (return x w) = Inr (x, w)"
  by (simp_all add: exec_def call_def emit_def lift_def return_def)

lemma completes_iff: "completes r \<longleftrightarrow> (\<exists>x. snd r = Inr x)"
  by (simp add: completes_def split: sum.splits)

subsection \<open>The apply loop\<close>

lemma apply_loop_calls:
  "set (filter is_SimApply (fst (apply_loop env action js w))) \<subseteq> {SimApply action} \<and>
   length (filter is_SimApply (fst (apply_loop env action js w))) \<le> length js \<and>
   (completes (apply_loop env action js w) \<longrightarrow>
      length (filter is_SimApply (fst (apply_loop env action js w))) = length js)"
proof (induction js arbitrary: w)
  case Nil
  show ?case by (simp add: fst_steps snd_steps completes_def)
next
  case (Cons j js)
  show ?case
  proof (cases "simulator_apply env action w")
    case (Inl e)
    then show ?thesis
      by (simp add: fst_and_then snd_and_then fst_steps snd_steps completes_def)
  next
    case (Inr r)
    obtain st w' where r: "r = (st, w')" by (cases r)
    show ?thesis
      using Cons.IH [of w']
      by (simp add: fst_and_then snd_and_then fst_steps snd_steps completes_def Inr r)
  qed
qed

lemma apply_loop_other_events:
  assumes "\<not> P (SimApply action)" and "\<And>i s. \<not> P (LogInfoApply i s)"
  shows "filter P (fst (apply_loop env action js w)) = []"
proof (induction js arbitrary: w)
  case Nil
  show ?case by (simp add: fst_steps)
next
  case (Cons j js)
  show ?case
    using assms Cons.IH
    by (simp add: fst_and_then fst_steps snd_steps split: sum.splits prod.splits)
qed

lemma apply_loop_no_copy: "filter is_CopyFile (fst (apply_loop env action js w)) = []"
  by (rule apply_loop_other_events) simp_all

lemma apply_loop_no_init: "filter is_SimInit (fst (apply_loop env action js w)) = []"
  by (rule apply_loop_other_events) simp_all

lemma no_events_and_then:
  assumes "\<And>w. filter P (fst (m w)) = []" and "\<And>x w. filter P (fst (k x w)) = []"
  shows "filter P (fst (and_then m k w)) = []"
  using assms by (simp add: fst_and_then split: sum.splits prod.splits)

lemma and_then_InrE:
  assumes "snd (and_then m k w) = Inr r"
  obtains x w' where "snd (m w) = Inr (x, w')" and "snd (k x w') = Inr r"
    and "fst (and_then m k w) = fst (m w) @ fst (k x w')"
  using assms by (auto simp: and_then_def split: prod.splits sum.splits)

subsection \<open>The trace of copy_input_files\<close>

lemma copy_input_files_no_apply:
  "filter is_SimApply (fst (copy_input_files env t n s c w)) = []"
  unfolding copy_input_files_def Let_def
  by (intro no_events_and_then) (simp_all add: fst_steps)

lemma copy_input_files_no_init:
  "filter is_SimInit (fst (copy_input_files env t n s c w)) = []"
  unfolding copy_input_files_def Let_def
  by (intro no_events_and_then) (simp_all add: fst_steps)

lemma copy_input_files_complete_trace:
  assumes "completes (copy_input_files env t n s c w)"
  shows "fst (copy_input_files env t n s c w) =
     [MakeDirs t, CopyFile n (t @ ''/'' @ basename n), CopyFile s (t @ ''/'' @ basename s),
      CopyFile c (t @ ''/'' @ basename c)]"
proof -
  from assms obtain r where "snd (copy_input_files env t n s c w) = Inr r"
    by (auto simp: completes_iff)
  then show ?thesis
    unfolding copy_input_files_def Let_def
    by (elim and_then_InrE) (simp add: fst_steps)
qed

subsection \<open>The two phases of main\<close>

lemma main_head_no_apply: "filter is_SimApply (fst (main_head env args w)) = []"
  unfolding main_head_def
  by (intro no_events_and_then) (simp_all add: fst_steps resolve_seed_def)

lemma main_head_no_copy: "filter is_CopyFile (fst (main_head env args w)) = []"
  unfolding main_head_def
  by (intro no_events_and_then) (simp_all add: fst_steps resolve_seed_def)

lemma main_head_result:
  assumes "snd (main_head env args w) = Inr ((s, st, ing, sched), w1)"
  shows "filter is_SimInit (fst (main_head env args w)) = [SimInit s] \<and>
         get_schedule (env_normalizer env) (state_network_nodes st)
           (state_service_functions st) (state_sfcs st) = Inr sched"
  using assms unfolding main_head_def
  by (elim and_then_InrE)
     (auto simp: fst_steps snd_steps resolve_seed_def split: sum.splits if_splits)


lemma main_tail_apply:
  "filter is_SimApply (fst (main_tail env args (s, st, ing, sched) w)) =
   filter is_SimApply
     (fst (apply_loop env
        (SimulatorAction (get_placement (state_network_nodes st) (state_service_functions st))
           sched)
        [0 ..< nat (iterations args)] w))"
proof -
  have "filter is_SimApply
      (fst (and_then (copy_input_files env (results_dir env args s)
                 (abspath env (network args)) (abspath env (service_functions args))
                 (abspath env (config args))) (\<lambda>_.
     exec (CreateInputFile (results_dir env args s) (length ing) ''LoadBalance'')
       (create_input_file env (results_dir env args s) (length ing) ''LoadBalance'')) w')) = []"
    for w'
    by (intro no_events_and_then) (simp_all add: fst_steps copy_input_files_no_apply)
  then show ?thesis
    by (simp add: main_tail_def fst_and_then split: sum.splits prod.splits)
qed

lemma main_tail_complete:
  assumes "completes (main_tail env args (s, st, ing, sched) w)"
  shows "completes (apply_loop env
        (SimulatorAction (get_placement (state_network_nodes st) (state_service_functions st))
           sched)
        [0 ..< nat (iterations args)] w) \<and>
     fst (main_tail env args (s, st, ing, sched) w) =
       fst (apply_loop env
        (SimulatorAction (get_placement (state_network_nodes st) (state_service_functions st))
           sched)
        [0 ..< nat (iterations args)] w) @
       [MakeDirs (results_dir env args s),
        CopyFile (abspath env (network args))
          (results_dir env args s @ ''/'' @ basename (abspath env (network args))),
        CopyFile (abspath env (service_functions args))
          (results_dir env args s @ ''/'' @ basename (abspath env (service_functions args))),
        CopyFile (abspath env (config args))
          (results_dir env args s @ ''/'' @ basename (abspath env (config args))),
        CreateInputFile (results_dir env args s) (length ing) ''LoadBalance'']"
proof -
  from assms obtain r where "snd (main_tail env args (s, st, ing, sched) w) = Inr r"
    by (auto simp: completes_iff)
  then show ?thesis
    unfolding main_tail_def prod.case
    apply (elim and_then_InrE)
    subgoal for x w' y w''
      using copy_input_files_complete_trace [of env "results_dir env args s"
          "abspath env (network args)" "abspath env (service_functions args)"
          "abspath env (config args)" w']
      by (simp add: completes_iff fst_steps)
    done
qed

lemma fst_main:
  "fst (main env args w) =
     fst (main_head env args w) @
     (case snd (main_head env args w) of
        Inl e \<Rightarrow> []
      | Inr (found, w1) \<Rightarrow> fst (main_tail env args found w1))"
  by (simp add: main_decomp fst_and_then)

lemma snd_main:
  "snd (main env args w) =
     (case snd (main_head env args w) of
        Inl e \<Rightarrow> Inl e
      | Inr (found, w1) \<Rightarrow> snd (main_tail env args found w1))"
  by (simp add: main_decomp snd_and_then)



lemma main_complete_trace:
  assumes "completes (main env args w)"
  shows "\<exists>s. filter is_SimInit (fst (main env args w)) = [SimInit s] \<and>
     filter is_CopyFile (fst (main env args w)) =
       [CopyFile (abspath env (network args))
          (results_dir env args s @ ''/'' @ basename (abspath env (network args))),
        CopyFile (abspath env (service_functions args))
          (results_dir env args s @ ''/'' @ basename (abspath env (service_functions args))),
        CopyFile (abspath env (config args))
          (results_dir env args s @ ''/'' @ basename (abspath env (config args)))]"
proof (cases "snd (main_head env args w)")
  case (Inl e)
  with assms show ?thesis by (simp add: completes_def snd_main)
next
  case (Inr r)
  obtain s st ing sched w1 where r: "r = ((s, st, ing, sched), w1)"
    by (cases r) auto
  from assms have t: "completes (main_tail env args (s, st, ing, sched) w1)"
    by (simp add: completes_def snd_main Inr r)
  have h: "filter is_SimInit (fst (main_head env args w)) = [SimInit s]"
    using main_head_result [of env args w s st ing sched w1] Inr r by simp
  have l: "filter is_CopyFile (fst (apply_loop env a js w1)) = []"
    "filter is_SimInit (fst (apply_loop env a js w1)) = []" for a js
    by (simp_all add: apply_loop_no_copy apply_loop_no_init)
  show ?thesis
    using main_tail_complete [OF t]
    by (intro exI [of _ s]) (simp add: fst_main Inr r h l main_head_no_copy)
qed

text \<open>
  Claim C6. With \<open>iterations = 0\<close> the simulator's \<^verbatim>\<open>apply\<close> is never called; and
  when the run completes, \<^verbatim>\<open>init\<close> has been called exactly once and the copies made
  are exactly those of the three input files into the results directory, under their
  base names.
\<close>

theorem main_zero_iterations:
  assumes "iterations args = 0"
  shows "filter is_SimApply (fst (main env args w)) = [] \<and>
     (completes (main env args w) \<longrightarrow>
        (\<exists>s. filter is_SimInit (fst (main env args w)) = [SimInit s] \<and>
           filter is_CopyFile (fst (main env args w)) =
             [CopyFile (abspath env (network args))
                (results_dir env args s @ ''/'' @ basename (abspath env (network args))),
              CopyFile (abspath env (service_functions args))
                (results_dir env args s @ ''/''
                   @ basename (abspath env (service_functions args))),
              CopyFile (abspath env (config args))
                (results_dir env args s @ ''/'' @ basename (abspath env (config args)))]))"
proof
  show "filter is_SimApply (fst (main env args w)) = []"
  proof (cases "snd (main_head env args w)")
    case (Inl e)
    then show ?thesis by (simp add: fst_main main_head_no_apply)
  next
    case (Inr r)
    obtain s st ing sched w1 where r: "r = ((s, st, ing, sched), w1)"
      by (cases r) auto
    show ?thesis
      by (simp add: fst_main Inr r main_head_no_apply main_tail_apply assms fst_steps)
  qed
  show "completes (main env args w) \<longrightarrow>
        (\<exists>s. filter is_SimInit (fst (main env args w)) = [SimInit s] \<and>
           filter is_CopyFile (fst (main env args w)) =
             [CopyFile (abspath env (network args))
                (results_dir env args s @ ''/'' @ basename (abspath env (network args))),
              CopyFile (abspath env (service_functions args))
                (results_dir env args s @ ''/''
                   @ basename (abspath env (service_functions args))),
              CopyFile (abspath env (config args))
                (results_dir env args s @ ''/'' @ basename (abspath env (config args)))])"
    using main_complete_trace [of env args w] by blast
qed

text \<open>
  Claim C7. The trace of every run splits into a first part without any file copy and
  a second part without any call of \<^verbatim>\<open>apply\<close>: each copy comes after every call of
  \<^verbatim>\<open>apply\<close>. And when a file is copied at all, the first part holds all the
  \<open>iterations\<close> calls of \<^verbatim>\<open>apply\<close>.
\<close>

theorem main_copies_after_apply:
  "\<exists>before after.
     fst (main env args w) = before @ after \<and>
     filter is_CopyFile before = [] \<and>
     filter is_SimApply after = [] \<and>
     (filter is_CopyFile after \<noteq> [] \<longrightarrow>
        length (filter is_SimApply before) = nat (iterations args))"
proof (cases "completes (main env args w)")
  case False
  show ?thesis
  proof (cases "snd (main_head env args w)")
    case (Inl e)
    then have "filter is_CopyFile (fst (main env args w)) = []"
      by (simp add: fst_main main_head_no_copy)
    then show ?thesis by (intro exI [of _ "fst (main env args w)"] exI [of _ "[]"]) simp
  next
    case (Inr r)
    obtain s st ing sched w1 where r: "r = ((s, st, ing, sched), w1)"
      by (cases r) auto
    let ?action = "SimulatorAction
      (get_placement (state_network_nodes st) (state_service_functions st)) sched"
    let ?loop = "apply_loop env ?action [0 ..< nat (iterations args)] w1"
    let ?before = "fst (main_head env args w) @ fst ?loop"
    obtain after where a: "fst (main_tail env args (s, st, ing, sched) w1) = fst ?loop @ after"
      and b: "after \<noteq> [] \<longrightarrow> completes ?loop"
      by (auto simp: main_tail_def fst_and_then completes_def split: sum.splits prod.splits)
    have c: "filter is_SimApply after = []"
      using main_tail_apply [of env args s st ing sched w1] by (simp add: a)
    have d: "filter is_CopyFile ?before = []"
      by (simp add: main_head_no_copy apply_loop_no_copy)
    have e: "filter is_CopyFile after \<noteq> [] \<longrightarrow>
        length (filter is_SimApply ?before) = nat (iterations args)"
    proof
      assume "filter is_CopyFile after \<noteq> []"
      then have "after \<noteq> []" by auto
      with b have "completes ?loop" by simp
      then show "length (filter is_SimApply ?before) = nat (iterations args)"
        using apply_loop_calls [of env ?action "[0 ..< nat (iterations args)]" w1]
        by (simp add: main_head_no_apply)
    qed
    have "fst (main env args w) = ?before @ after"
      by (simp add: fst_main Inr r a)
    with c d e show ?thesis by blast
  qed
next
  case True
  show ?thesis
  proof (cases "snd (main_head env args w)")
    case (Inl e)
    with True show ?thesis by (simp add: completes_def snd_main)
  next
    case (Inr r)
    obtain s st ing sched w1 where r: "r = ((s, st, ing, sched), w1)"
      by (cases r) auto
    let ?action = "SimulatorAction
      (get_placement (state_network_nodes st) (state_service_functions st)) sched"
    let ?loop = "apply_loop env ?action [0 ..< nat (iterations args)] w1"
    let ?before = "fst (main_head env args w) @ fst ?loop"
    from True have t: "completes (main_tail env args (s, st, ing, sched) w1)"
      by (simp add: completes_def snd_main Inr r)
    note tail = main_tail_complete [OF t]
    have d: "filter is_CopyFile ?before = []"
      by (simp add: main_head_no_copy apply_loop_no_copy)
    have e: "length (filter is_SimApply ?before) = nat (iterations args)"
      using apply_loop_calls [of env ?action "[0 ..< nat (iterations args)]" w1] tail
      by (simp add: main_head_no_apply)
    show ?thesis
      apply (rule exI [of _ ?before])
      apply (rule exI [of _ "[MakeDirs (results_dir env args s),
        CopyFile (abspath env (network args))
          (results_dir env args s @ ''/'' @ basename (abspath env (network args))),
        CopyFile (abspath env (service_functions args))
          (results_dir env args s @ ''/'' @ basename (abspath env (service_functions args))),
        CopyFile (abspath env (config args))
          (results_dir env args s @ ''/'' @ basename (abspath env (config args))),
        CreateInputFile (results_dir env args s) (length ing) ''LoadBalance'']"])
      using tail d e by (simp add: fst_main Inr r)
  qed
qed



subsection \<open>The seed\<close>

lemma resolve_seed_explicit:
  "s \<noteq> 0 \<Longrightarrow> resolve_seed env (Some s) w = ([], Inr (s, w))"
  by (simp add: resolve_seed_def return_def)

lemma resolve_seed_absent:
  "resolve_seed env None w = ([Randint 1 9999], Inr (randint env 1 9999 w))"
  by (simp add: resolve_seed_def call_def)

lemma resolve_seed_zero:
  "resolve_seed env (Some 0) w = ([Randint 1 9999], Inr (randint env 1 9999 w))"
  by (simp add: resolve_seed_def call_def)

lemma main_tail_no_init:
  "filter is_SimInit (fst (main_tail env args (s, st, ing, sched) w)) = []"
  unfolding main_tail_def prod.case
  by (intro no_events_and_then)
     (simp_all add: fst_steps copy_input_files_no_init apply_loop_no_init)

lemma apply_loop_no_randint: "filter is_Randint (fst (apply_loop env action js w)) = []"
  by (rule apply_loop_other_events) simp_all

lemma copy_input_files_no_randint:
  "filter is_Randint (fst (copy_input_files env t n s c w)) = []"
  unfolding copy_input_files_def Let_def
  by (intro no_events_and_then) (simp_all add: fst_steps)

lemma main_tail_no_randint:
  "filter is_Randint (fst (main_tail env args (s, st, ing, sched) w)) = []"
  unfolding main_tail_def prod.case
  by (intro no_events_and_then)
     (simp_all add: fst_steps copy_input_files_no_randint apply_loop_no_randint)

subsection \<open>The run in the concrete world\<close>

lemma get_schedule_uniform_normalizer:
  "\<exists>schedule. get_schedule uniform_normalizer nodes fs cs = Inr schedule"
proof (cases "nodes = []")
  case True
  then show ?thesis by (simp add: get_schedule_def)
next
  case False
  then have "uniform_normalizer (replicate (length nodes) 0) =
      Inr (replicate (length nodes) (1 / real (length nodes)))"
    by (simp add: uniform_normalizer_def)
  then show ?thesis
    using get_schedule_lookup [of uniform_normalizer nodes
      "replicate (length nodes) (1 / real (length nodes))" fs cs]
    by auto
qed

lemma demo_ingress: "get_ingress_nodes demo_network = Inr [''pop0'', ''pop2'']"
  by (simp add: get_ingress_nodes_def demo_network_def)

lemma demo_results_dir:
  "results_dir demo_env (demo_args n s) 4242 = ''/r/results/n/s/c/T_seed4242''"
  "results_dir demo_env (demo_args n s) 7 = ''/r/results/n/s/c/T_seed7''"
  by (simp_all add: results_dir_def demo_env_def demo_args_def
      basename_def splitext_root_def str_int_def digit_char_def Let_def)

lemma demo_env_fields:
  "makedirs demo_env = fs_makedirs"
  "copyfile demo_env = fs_copyfile"
  "basicConfig demo_env = (\<lambda>f w. Inr w)"
  "new_simulator demo_env = (\<lambda>a b c d w. Inr w)"
  "simulator_init demo_env = (\<lambda>s w. Inr (demo_state, w))"
  "simulator_apply demo_env = (\<lambda>a w. Inr (demo_state, w))"
  "randint demo_env = (\<lambda>lo hi w. (4242, w))"
  "simulator_network demo_env = (\<lambda>w. demo_network)"
  "env_normalizer demo_env = uniform_normalizer"
  "create_input_file demo_env = (\<lambda>d n s w. Inr w)"
  "abspath demo_env = (\<lambda>p. ''/w/'' @ p)"
  by (simp_all add: demo_env_def)

lemma demo_args_fields:
  "iterations (demo_args n s) = n"
  "seed (demo_args n s) = s"
  "network (demo_args n s) = ''n.yaml''"
  "service_functions (demo_args n s) = ''s.yaml''"
  "config (demo_args n s) = ''c.yaml''"
  by (simp_all add: demo_args_def)

lemma demo_resolve_seed:
  "snd (resolve_seed demo_env given w) = Inr (demo_seed given, w)"
  by (cases given)
     (simp_all add: resolve_seed_def call_def return_def demo_env_fields demo_seed_def)

lemma demo_head:
  "\<exists>schedule.
     snd (main_head demo_env (demo_args n given) demo_files) =
       Inr ((demo_seed given, demo_state, [''pop0'', ''pop2''], schedule),
            demo_files\<lparr>dirs := {''/w'', ''logs''}\<rparr>)"
proof -
  obtain schedule where s: "get_schedule uniform_normalizer [''pop0'', ''pop1'', ''pop2'']
      [''a'', ''b''] [''sfc_1''] = Inr schedule"
    using get_schedule_uniform_normalizer by blast
  have m: "fs_makedirs ''logs'' demo_files = Inr (demo_files\<lparr>dirs := {''/w'', ''logs''}\<rparr>)"
    by (simp add: fs_makedirs_def demo_files_def parent_dirs_def insert_commute)
  have st: "state_network_nodes demo_state = [''pop0'', ''pop1'', ''pop2'']"
    "state_service_functions demo_state = [''a'', ''b'']"
    "state_sfcs demo_state = [''sfc_1'']"
    by (simp_all add: demo_state_def)
  show ?thesis
    by (rule exI [of _ schedule])
       (simp add: main_head_def snd_and_then snd_steps demo_resolve_seed demo_env_fields
          demo_args_fields m st s demo_ingress)
qed

lemma demo_loop: "snd (apply_loop demo_env action js w) = Inr ((), w)"
  by (induction js) (simp_all add: snd_and_then snd_steps demo_env_fields)

lemma demo_copy:
  "\<exists>fs'. snd (copy_input_files demo_env ''/r/results/n/s/c/T_seed4242''
       ''/w/n.yaml'' ''/w/s.yaml'' ''/w/c.yaml'' (demo_files\<lparr>dirs := {''/w'', ''logs''}\<rparr>)) =
      Inr ((), fs')"
  "\<exists>fs'. snd (copy_input_files demo_env ''/r/results/n/s/c/T_seed7''
       ''/w/n.yaml'' ''/w/s.yaml'' ''/w/c.yaml'' (demo_files\<lparr>dirs := {''/w'', ''logs''}\<rparr>)) =
      Inr ((), fs')"
  by (simp_all add: copy_input_files_def and_then_def exec_def demo_env_def demo_files_def
      fs_makedirs_def fs_copyfile_def parent_dirs_def basename_def dirname_def Let_def)

lemma demo_completes:
  "completes (main demo_env (demo_args n None) demo_files)"
  "completes (main demo_env (demo_args n (Some 0)) demo_files)"
  "completes (main demo_env (demo_args n (Some 7)) demo_files)"
proof -
  have "completes (main demo_env (demo_args n given) demo_files)"
    if "\<exists>fs'. snd (copy_input_files demo_env
         (results_dir demo_env (demo_args n given) (demo_seed given))
         ''/w/n.yaml'' ''/w/s.yaml'' ''/w/c.yaml'' (demo_files\<lparr>dirs := {''/w'', ''logs''}\<rparr>)) =
        Inr ((), fs')" for given
  proof -
    obtain schedule where h: "snd (main_head demo_env (demo_args n given) demo_files) =
       Inr ((demo_seed given, demo_state, [''pop0'', ''pop2''], schedule),
            demo_files\<lparr>dirs := {''/w'', ''logs''}\<rparr>)"
      using demo_head by blast
    from that obtain fs' where c: "snd (copy_input_files demo_env
         (results_dir demo_env (demo_args n given) (demo_seed given))
         ''/w/n.yaml'' ''/w/s.yaml'' ''/w/c.yaml'' (demo_files\<lparr>dirs := {''/w'', ''logs''}\<rparr>)) =
        Inr ((), fs')" by blast
    show ?thesis
      by (simp add: completes_def snd_main h main_tail_def snd_and_then demo_loop c snd_steps
          demo_env_fields demo_args_fields)
  qed
  from this [of None] this [of "Some 0"] this [of "Some 7"]
  show "completes (main demo_env (demo_args n None) demo_files)"
    and "completes (main demo_env (demo_args n (Some 0)) demo_files)"
    and "completes (main demo_env (demo_args n (Some 7)) demo_files)"
    by (simp_all add: demo_seed_def demo_results_dir demo_copy)
qed



text \<open>
  No iteration and the seed 7 in the concrete world: one call of \<^verbatim>\<open>init\<close>, no call
  of \<^verbatim>\<open>apply\<close>, three copies.
\<close>

theorem main_zero_iterations_witness:
  "filter is_SimApply (fst (main demo_env (demo_args 0 (Some 7)) demo_files)) = [] \<and>
   filter is_SimInit (fst (main demo_env (demo_args 0 (Some 7)) demo_files)) = [SimInit 7] \<and>
   filter is_CopyFile (fst (main demo_env (demo_args 0 (Some 7)) demo_files)) =
     [CopyFile ''/w/n.yaml'' ''/r/results/n/s/c/T_seed7/n.yaml'',
      CopyFile ''/w/s.yaml'' ''/r/results/n/s/c/T_seed7/s.yaml'',
      CopyFile ''/w/c.yaml'' ''/r/results/n/s/c/T_seed7/c.yaml'']"
proof -
  let ?run = "main demo_env (demo_args 0 (Some 7)) demo_files"
  obtain schedule where h: "snd (main_head demo_env (demo_args 0 (Some 7)) demo_files) =
       Inr ((demo_seed (Some 7), demo_state, [''pop0'', ''pop2''], schedule),
            demo_files\<lparr>dirs := {''/w'', ''logs''}\<rparr>)"
    using demo_head by blast
  have i: "filter is_SimInit (fst ?run) = [SimInit 7]"
    using main_head_result [OF h]
    by (simp add: fst_main h main_tail_no_init demo_seed_def)
  from main_zero_iterations [of "demo_args 0 (Some 7)" demo_env demo_files]
    demo_completes(3) [of 0]
  obtain s where a: "filter is_SimApply (fst ?run) = []"
    and s: "filter is_SimInit (fst ?run) = [SimInit s]"
    and c: "filter is_CopyFile (fst ?run) =
             [CopyFile (abspath demo_env (network (demo_args 0 (Some 7))))
                (results_dir demo_env (demo_args 0 (Some 7)) s @ ''/''
                   @ basename (abspath demo_env (network (demo_args 0 (Some 7))))),
              CopyFile (abspath demo_env (service_functions (demo_args 0 (Some 7))))
                (results_dir demo_env (demo_args 0 (Some 7)) s @ ''/''
                   @ basename (abspath demo_env (service_functions (demo_args 0 (Some 7))))),
              CopyFile (abspath demo_env (config (demo_args 0 (Some 7))))
                (results_dir demo_env (demo_args 0 (Some 7)) s @ ''/''
                   @ basename (abspath demo_env (config (demo_args 0 (Some 7)))))]"
    by (auto simp: demo_args_fields)
  from i s have "s = 7" by simp
  with a i c show ?thesis
    by (simp add: demo_results_dir demo_args_fields demo_env_fields basename_def)
qed

text \<open>Two iterations in the concrete world: both calls come before the copies.\<close>

theorem main_copies_after_apply_witness:
  "\<exists>before after.
     fst (main demo_env (demo_args 2 None) demo_files) = before @ after \<and>
     filter is_CopyFile before = [] \<and>
     filter is_SimApply after = [] \<and>
     filter is_CopyFile after \<noteq> [] \<and>
     length (filter is_SimApply before) = 2"
proof -
  let ?run = "main demo_env (demo_args 2 None) demo_files"
  have "filter is_CopyFile (fst ?run) \<noteq> []"
    using main_complete_trace [OF demo_completes(1) [of 2]] by auto
  moreover obtain before after where "fst ?run = before @ after"
    and "filter is_CopyFile before = []" and "filter is_SimApply after = []"
    and "filter is_CopyFile after \<noteq> [] \<longrightarrow>
        length (filter is_SimApply before) = nat (iterations (demo_args 2 None))"
    using main_copies_after_apply [of demo_env "demo_args 2 None" demo_files] by blast
  ultimately show ?thesis
    by (intro exI [of _ before] exI [of _ after]) (simp add: demo_args_fields)
qed

text \<open>
  Claim C2 at the seed 0. The seed is given explicitly, yet a random number is drawn
  (one \<^verbatim>\<open>randint(1, 9999)\<close> event) and the simulator is initialised with the number
  drawn, 4242, not with 0: \<^verbatim>\<open>not args.seed\<close> does not tell 0 from a missing option.
\<close>

theorem main_seed_zero_is_replaced:
  "filter is_Randint (fst (main demo_env (demo_args 2 (Some 0)) demo_files)) =
     [Randint 1 9999] \<and>
   filter is_SimInit (fst (main demo_env (demo_args 2 (Some 0)) demo_files)) =
     [SimInit 4242]"
proof -
  obtain schedule where h: "snd (main_head demo_env (demo_args 2 (Some 0)) demo_files) =
       Inr ((demo_seed (Some 0), demo_state, [''pop0'', ''pop2''], schedule),
            demo_files\<lparr>dirs := {''/w'', ''logs''}\<rparr>)"
    using demo_head by blast
  have r: "filter is_Randint (fst (main_head demo_env (demo_args 2 (Some 0)) demo_files)) =
      [Randint 1 9999]"
    using h unfolding main_head_def
    by (elim and_then_InrE)
       (simp add: fst_steps resolve_seed_zero demo_args_fields)
  show ?thesis
    using main_head_result [OF h]
    by (simp add: fst_main h r main_tail_no_init main_tail_no_randint demo_seed_def)
qed



section \<open>copy_input_files on the file system\<close>










subsection \<open>An existing target directory\<close>















end
